theory Spec2Isabelle
  imports Main
begin

section \<open>Python values and exceptions\<close>

text \<open>
  The converter reads an untyped Python object. A float is either a finite dyadic
  number \<open>Finite m e\<close>, denoting \<open>m * 2 ^ e\<close>, or one of the three special values. An
  IEEE double is a \<open>Finite m e\<close> with \<open>\<bar>m\<bar> < 2 ^ 53\<close> and \<open>- 1074 \<le> e \<le> 971\<close>.
  A string is a list of code points in the range 0..255; a dict is an association list
  with string keys, read with \<open>map_of\<close>.
\<close>

datatype pyfloat = Finite int int | PosInf | NegInf | NaN

datatype pyval =
    PyNone
  | PyBool bool
  | PyInt int
  | PyFloat pyfloat
  | PyStr string
  | PyList "pyval list"
  | PyDict "(string \<times> pyval) list"

datatype exn =
    KeyError
  | IndexError
  | TypeError
  | AttributeError
  | OverflowError
  | ValueError
  | ZeroDivisionError
  | OSError
  | UnicodeEncodeError
  | KeyboardInterrupt

text \<open>\<open>except Exception\<close> catches every class above but \<open>KeyboardInterrupt\<close>, which
  derives from \<open>BaseException\<close> only.\<close>

fun is_Exception :: "exn \<Rightarrow> bool" where
  "is_Exception KeyboardInterrupt = False"
| "is_Exception _ = True"


section \<open>Float arithmetic used by the formatter\<close>

text \<open>Number of binary digits of a natural number.\<close>

fun bitlen :: "nat \<Rightarrow> nat" where
  "bitlen n = (if n = 0 then 0 else Suc (bitlen (n div 2)))"

declare bitlen.simps [simp del]

text \<open>\<open>rhe_div n d\<close>, for \<open>0 < d\<close>: the integer nearest to \<open>n / d\<close>, ties to the even one.\<close>

definition rhe_div :: "int \<Rightarrow> int \<Rightarrow> int" where
  "rhe_div n d =
     (let q = n div d; r = n mod d
      in if 2 * r < d then q
         else if d < 2 * r then q + 1
         else if even q then q else q + 1)"

text \<open>\<open>math.modf\<close> on a finite float: the integral part (towards zero) and the
  mantissa of the fractional part at the same exponent. Both are exact.\<close>

definition modf_int :: "int \<Rightarrow> int \<Rightarrow> int" where
  "modf_int m e = (if 0 \<le> e then m * 2 ^ nat e else sgn m * (\<bar>m\<bar> div 2 ^ nat (- e)))"

definition modf_frac :: "int \<Rightarrow> int \<Rightarrow> int" where
  "modf_frac m e = (if 0 \<le> e then 0 else sgn m * (\<bar>m\<bar> mod 2 ^ nat (- e)))"

text \<open>Rounding the exact dyadic \<open>m * 2 ^ e\<close> to the nearest double (53 significant
  bits, ties to even). The exponent only grows, so no subnormal case arises for
  \<open>- 1074 \<le> e\<close>.\<close>

definition round_to_double :: "int \<Rightarrow> int \<Rightarrow> int \<times> int" where
  "round_to_double m e =
     (let n = bitlen (nat \<bar>m\<bar>)
      in if n \<le> 53 then (m, e)
         else (rhe_div m (2 ^ (n - 53)), e + int (n - 53)))"

text \<open>\<open>round(x)\<close> of a finite float: nearest integer, ties to even.\<close>

definition py_round :: "int \<times> int \<Rightarrow> int" where
  "py_round x = (case x of (m, e) \<Rightarrow>
     if 0 \<le> e then m * 2 ^ nat e else rhe_div m (2 ^ nat (- e)))"

text \<open>\<open>a / b\<close> on ints: the double nearest to the exact quotient. \<open>floor_log2_quot a b\<close>
  is \<open>\<lfloor>log\<^sub>2 (a / b)\<rfloor>\<close> for positive \<open>a\<close>, \<open>b\<close>.\<close>

definition floor_log2_quot :: "int \<Rightarrow> int \<Rightarrow> int" where
  "floor_log2_quot a b =
     (let d = int (bitlen (nat a)) - int (bitlen (nat b))
      in if b * 2 ^ nat d \<le> a * 2 ^ nat (- d) then d else d - 1)"

definition int_truediv :: "int \<Rightarrow> int \<Rightarrow> exn + pyfloat" where
  "int_truediv a b =
     (if b = 0 then Inl ZeroDivisionError
      else if a = 0 then Inr (Finite 0 0)
      else
        let k = floor_log2_quot \<bar>a\<bar> \<bar>b\<bar>;
            e = max (k - 52) (- 1074);
            m = rhe_div (\<bar>a\<bar> * 2 ^ nat (- e)) (\<bar>b\<bar> * 2 ^ nat e)
        in if 2 ^ 1024 \<le> m * 2 ^ nat e then Inl OverflowError
           else Inr (Finite (sgn a * sgn b * m) e))"

text \<open>\<open>int(x)\<close> of a float truncates towards zero.\<close>

fun py_int :: "pyfloat \<Rightarrow> exn + int" where
  "py_int (Finite m e) = Inr (modf_int m e)"
| "py_int PosInf = Inl OverflowError"
| "py_int NegInf = Inl OverflowError"
| "py_int NaN = Inl ValueError"

section \<open>datetime.timedelta(seconds=...)\<close>

record timedelta =
  days :: int
  seconds :: int
  microseconds :: int

text \<open>The total number of microseconds: exact for an int (and a bool, which is an
  int); for a float the integral part is exact and the fractional part is multiplied
  by \<open>1e6\<close> in double arithmetic and rounded to the nearest integer.\<close>

fun total_microseconds :: "pyval \<Rightarrow> exn + int" where
  "total_microseconds (PyInt n) = Inr (n * 1000000)"
| "total_microseconds (PyBool b) = Inr ((if b then 1 else 0) * 1000000)"
| "total_microseconds (PyFloat (Finite m e)) =
     Inr (modf_int m e * 1000000
            + py_round (round_to_double (modf_frac m e * 1000000) e))"
| "total_microseconds (PyFloat PosInf) = Inl OverflowError"
| "total_microseconds (PyFloat NegInf) = Inl OverflowError"
| "total_microseconds (PyFloat NaN) = Inl ValueError"
| "total_microseconds _ = Inl TypeError"

definition normalize :: "int \<Rightarrow> exn + timedelta" where
  "normalize us =
     (let s = us div 1000000; d = s div 86400
      in if 999999999 < \<bar>d\<bar> then Inl OverflowError
         else Inr \<lparr>days = d, seconds = s mod 86400, microseconds = us mod 1000000\<rparr>)"

definition timedelta_seconds :: "pyval \<Rightarrow> exn + timedelta" where
  "timedelta_seconds x =
     (case total_microseconds x of Inl err \<Rightarrow> Inl err | Inr us \<Rightarrow> normalize us)"

section \<open>String formatting\<close>

definition digit_char :: "nat \<Rightarrow> char" where
  "digit_char d = ''0123456789'' ! d"

fun str_nat :: "nat \<Rightarrow> string" where
  "str_nat n = (if n < 10 then [digit_char n]
                else str_nat (n div 10) @ [digit_char (n mod 10)])"

declare str_nat.simps [simp del]

text \<open>\<open>str(i)\<close> and the format specification \<open>0wd\<close> (sign-aware zero padding).\<close>

definition py_str_int :: "int \<Rightarrow> string" where
  "py_str_int i = (if i < 0 then CHR ''-'' # str_nat (nat (- i)) else str_nat (nat i))"

definition zero_pad :: "nat \<Rightarrow> string \<Rightarrow> string" where
  "zero_pad w s = replicate (w - length s) CHR ''0'' @ s"

definition fmt_0d :: "nat \<Rightarrow> int \<Rightarrow> string" where
  "fmt_0d w i =
     (if i < 0 then CHR ''-'' # zero_pad (w - 1) (str_nat (nat (- i)))
      else zero_pad w (str_nat (nat i)))"

section \<open>format_time\<close>

definition format_time :: "pyval \<Rightarrow> exn + string" where
  "format_time secs =
     (case timedelta_seconds secs of
        Inl err \<Rightarrow> Inl err
      | Inr time \<Rightarrow>
          let hours = seconds time div 3600;
              remainder = seconds time mod 3600;
              minutes = remainder div 60;
              seconds' = remainder mod 60
          in (case int_truediv (microseconds time) 1000 of
                Inl err \<Rightarrow> Inl err
              | Inr q \<Rightarrow>
                 (case py_int q of
                    Inl err \<Rightarrow> Inl err
                  | Inr milliseconds \<Rightarrow>
                      Inr (fmt_0d 2 hours @ '':'' @ fmt_0d 2 minutes @ '':''
                           @ fmt_0d 2 seconds' @ '','' @ fmt_0d 3 milliseconds))))"

section \<open>Dynamic access to the input object\<close>

definition bind :: "exn + 'a \<Rightarrow> ('a \<Rightarrow> exn + 'b) \<Rightarrow> exn + 'b" where
  "bind r f = (case r of Inl err \<Rightarrow> Inl err | Inr v \<Rightarrow> f v)"

text \<open>\<open>obj[key]\<close> with a string key.\<close>

fun getitem_key :: "pyval \<Rightarrow> string \<Rightarrow> exn + pyval" where
  "getitem_key (PyDict kvs) k =
     (case map_of kvs k of None \<Rightarrow> Inl KeyError | Some v \<Rightarrow> Inr v)"
| "getitem_key _ k = Inl TypeError"

text \<open>\<open>obj[i]\<close> with a non-negative int index. The keys of a dict are strings, so an int
  is never among them.\<close>

fun getitem_index :: "pyval \<Rightarrow> nat \<Rightarrow> exn + pyval" where
  "getitem_index (PyList xs) i = (if i < length xs then Inr (xs ! i) else Inl IndexError)"
| "getitem_index (PyStr s) i = (if i < length s then Inr (PyStr [s ! i]) else Inl IndexError)"
| "getitem_index (PyDict kvs) i = Inl KeyError"
| "getitem_index _ i = Inl TypeError"

text \<open>The elements a \<open>for\<close> loop visits.\<close>

fun py_iter :: "pyval \<Rightarrow> exn + pyval list" where
  "py_iter (PyList xs) = Inr xs"
| "py_iter (PyStr s) = Inr (map (\<lambda>c. PyStr [c]) s)"
| "py_iter (PyDict kvs) = Inr (map (\<lambda>kv. PyStr (fst kv)) kvs)"
| "py_iter _ = Inl TypeError"

text \<open>\<open>str.isspace\<close> on the code points 0..255, and \<open>str.strip()\<close>.\<close>

definition is_space :: "char \<Rightarrow> bool" where
  "is_space c = (c \<in> set [CHR 0x09, CHR 0x0A, CHR 0x0B, CHR 0x0C, CHR 0x0D,
                          CHR 0x1C, CHR 0x1D, CHR 0x1E, CHR 0x1F, CHR 0x20,
                          CHR 0x85, CHR 0xA0])"

definition py_strip :: "string \<Rightarrow> string" where
  "py_strip s = rev (dropWhile is_space (rev (dropWhile is_space s)))"

fun strip_method :: "pyval \<Rightarrow> exn + string" where
  "strip_method (PyStr s) = Inr (py_strip s)"
| "strip_method _ = Inl AttributeError"

text \<open>\<open>sep.join(xs)\<close>.\<close>

fun join :: "string \<Rightarrow> string list \<Rightarrow> string" where
  "join sep [] = []"
| "join sep [x] = x"
| "join sep (x # y # ys) = x @ sep @ join sep (y # ys)"

section \<open>convert_object_to_srt\<close>

text \<open>One pass of the loop body: the block appended to \<open>srt_content\<close>.\<close>

definition render_chunk :: "int \<Rightarrow> pyval \<Rightarrow> exn + string" where
  "render_chunk subtitle_index chunk =
     bind (getitem_key chunk ''timestamp'') (\<lambda>ts0.
     bind (getitem_index ts0 0) (\<lambda>t0.
     bind (format_time t0) (\<lambda>start_time.
     bind (getitem_key chunk ''timestamp'') (\<lambda>ts1.
     bind (getitem_index ts1 1) (\<lambda>t1.
     bind (format_time t1) (\<lambda>end_time.
     bind (getitem_key chunk ''text'') (\<lambda>tx.
     bind (strip_method tx) (\<lambda>text.
       Inr (py_str_int subtitle_index @ ''\<newline>'' @ start_time @ '' --> '' @ end_time
            @ ''\<newline>'' @ text @ ''\<newline>'')))))))))"

fun chunk_loop :: "pyval list \<Rightarrow> string list \<Rightarrow> int \<Rightarrow> exn + string list" where
  "chunk_loop [] srt_content subtitle_index = Inr srt_content"
| "chunk_loop (chunk # chunks) srt_content subtitle_index =
     bind (render_chunk subtitle_index chunk) (\<lambda>block.
       chunk_loop chunks (srt_content @ [block]) (subtitle_index + 1))"

text \<open>The list \<open>srt_content\<close> when the loop ends.\<close>

definition srt_blocks :: "pyval \<Rightarrow> exn + string list" where
  "srt_blocks data =
     bind (getitem_key data ''chunks'') (\<lambda>chunks.
     bind (py_iter chunks) (\<lambda>cs. chunk_loop cs [] 1))"

definition convert_object_to_srt :: "pyval \<Rightarrow> exn + string" where
  "convert_object_to_srt data =
     bind (srt_blocks data) (\<lambda>srt_content. Inr (join ''\<newline>'' srt_content))"

section \<open>process_object\<close>

text \<open>The world the writer acts on: the files by path and what has been printed. What
  the file system does with the \<open>open\<close> and the \<open>write\<close> is a parameter; a failed
  write leaves the file opened in mode \<open>'w'\<close> behind, with whatever reached it.\<close>

datatype message = SavedSuccessfully | ErrorProcessingData exn

record world =
  files :: "string \<Rightarrow> string option"
  stdout :: "message list"

datatype io_outcome = IoSucceeds | OpenRaises exn | WriteRaises exn string

definition print :: "message \<Rightarrow> world \<Rightarrow> world" where
  "print msg w = w\<lparr>stdout := stdout w @ [msg]\<rparr>"

definition open_and_write :: "io_outcome \<Rightarrow> string \<Rightarrow> string \<Rightarrow> world \<Rightarrow> exn \<times> world + world" where
  "open_and_write io output_path content w =
     (case io of
        OpenRaises err \<Rightarrow> Inl (err, w)
      | WriteRaises err partial \<Rightarrow> Inl (err, w\<lparr>files := (files w)(output_path \<mapsto> partial)\<rparr>)
      | IoSucceeds \<Rightarrow> Inr (w\<lparr>files := (files w)(output_path \<mapsto> content)\<rparr>))"

text \<open>The body of the \<open>try\<close>, with the world at the point where an exception is raised.\<close>

definition try_body :: "io_outcome \<Rightarrow> pyval \<Rightarrow> string \<Rightarrow> world \<Rightarrow> exn \<times> world + world" where
  "try_body io data output_path w =
     (case convert_object_to_srt data of
        Inl err \<Rightarrow> Inl (err, w)
      | Inr srt_content \<Rightarrow>
          (case open_and_write io output_path srt_content w of
             Inl ew \<Rightarrow> Inl ew
           | Inr w' \<Rightarrow> Inr (print SavedSuccessfully w')))"

definition process_object :: "io_outcome \<Rightarrow> pyval \<Rightarrow> string \<Rightarrow> world \<Rightarrow> exn + world" where
  "process_object io data output_path w =
     (case try_body io data output_path w of
        Inr w' \<Rightarrow> Inr w'
      | Inl (err, w') \<Rightarrow>
          if is_Exception err then Inr (print (ErrorProcessingData err) w') else Inl err)"

section \<open>Reference definitions from the specification\<close>

text \<open>The clock rendering \<open>HH:MM:SS,mmm\<close> of a count of microseconds: hours are all
  the whole hours, milliseconds are truncated.\<close>

definition clock :: "int \<Rightarrow> string" where
  "clock us =
     fmt_0d 2 (us div 1000000 div 3600) @ '':''
     @ fmt_0d 2 (us div 1000000 mod 3600 div 60) @ '':''
     @ fmt_0d 2 (us div 1000000 mod 60) @ '',''
     @ fmt_0d 3 (us mod 1000000 div 1000)"

text \<open>The formatter as the specification words it, for a finite non-negative number:
  split the input into whole and fractional seconds; the whole seconds decompose by
  3600 and 60; the fractional seconds are multiplied by 1000 and truncated.\<close>

fun whole_seconds :: "pyval \<Rightarrow> int" where
  "whole_seconds (PyInt n) = n"
| "whole_seconds (PyFloat (Finite m e)) = modf_int m e"
| "whole_seconds _ = 0"

fun truncated_ms :: "pyval \<Rightarrow> int" where
  "truncated_ms (PyFloat (Finite m e)) =
     (if 0 \<le> e then 0 else modf_frac m e * 1000 div 2 ^ nat (- e))"
| "truncated_ms _ = 0"

definition spec_format_time :: "pyval \<Rightarrow> string" where
  "spec_format_time x =
     fmt_0d 2 (whole_seconds x div 3600) @ '':''
     @ fmt_0d 2 (whole_seconds x mod 3600 div 60) @ '':''
     @ fmt_0d 2 (whole_seconds x mod 3600 mod 60) @ '',''
     @ fmt_0d 3 (truncated_ms x)"

text \<open>Finite numbers by sign, and the numbers \<open>timedelta\<close> can hold (at most 999999999
  days in either direction).\<close>

fun is_negative :: "pyval \<Rightarrow> bool" where
  "is_negative (PyInt n) = (n < 0)"
| "is_negative (PyFloat (Finite m e)) = (m < 0)"
| "is_negative _ = False"


definition in_timedelta_range :: "pyval \<Rightarrow> bool" where
  "in_timedelta_range x =
     (case total_microseconds x of
        Inl err \<Rightarrow> False
      | Inr us \<Rightarrow> \<bar>us div 1000000 div 86400\<bar> \<le> 999999999)"

text \<open>The typed view of a well-formed input: a chunk has a timestamp that is a pair
  of numbers the duration type can hold, and a text that is a string; a transcript has
  a list of such chunks under \<open>chunks\<close>. Other keys, \<open>speakers\<close> among them, are free.\<close>

record chunk =
  chunk_timestamp :: "pyval \<times> pyval"
  chunk_text :: string

definition as_chunk :: "pyval \<Rightarrow> chunk option" where
  "as_chunk c =
     (case c of
        PyDict kvs \<Rightarrow>
          (case map_of kvs ''timestamp'' of
             Some (PyList [t0, t1]) \<Rightarrow>
               (case map_of kvs ''text'' of
                  Some (PyStr s) \<Rightarrow>
                    if in_timedelta_range t0 \<and> in_timedelta_range t1
                    then Some \<lparr>chunk_timestamp = (t0, t1), chunk_text = s\<rparr> else None
                | _ \<Rightarrow> None)
           | _ \<Rightarrow> None)
      | _ \<Rightarrow> None)"

definition transcript :: "pyval \<Rightarrow> chunk list option" where
  "transcript data =
     (case data of
        PyDict kvs \<Rightarrow>
          (case map_of kvs ''chunks'' of
             Some (PyList cs) \<Rightarrow> those (map as_chunk cs)
           | _ \<Rightarrow> None)
      | _ \<Rightarrow> None)"

text \<open>The document the specification describes: per chunk the three lines index, time
  range and trimmed text; blocks joined by one empty line.\<close>

definition formatted :: "pyval \<Rightarrow> string" where
  "formatted t = (case format_time t of Inl err \<Rightarrow> [] | Inr s \<Rightarrow> s)"

definition srt_block :: "nat \<Rightarrow> chunk \<Rightarrow> string" where
  "srt_block i c =
     py_str_int (int i) @ ''\<newline>''
     @ formatted (fst (chunk_timestamp c)) @ '' --> ''
     @ formatted (snd (chunk_timestamp c)) @ ''\<newline>''
     @ py_strip (chunk_text c) @ ''\<newline>''"

definition srt_document :: "chunk list \<Rightarrow> string" where
  "srt_document cs =
     join ''\<newline>'' (map (\<lambda>(i, c). srt_block i c) (zip [1..<Suc (length cs)] cs))"

text \<open>\<open>is_trim_of s t\<close>: \<open>t\<close> is \<open>s\<close> without its leading and trailing whitespace, the
  rest untouched.\<close>

definition is_trim_of :: "string \<Rightarrow> string \<Rightarrow> bool" where
  "is_trim_of s t =
     (\<exists>pre suf. s = pre @ t @ suf \<and> (\<forall>c \<in> set pre. is_space c) \<and> (\<forall>c \<in> set suf. is_space c)
        \<and> (t = [] \<or> (\<not> is_space (hd t) \<and> \<not> is_space (last t))))"

text \<open>Structural defects of the input. The specification calls a timestamp well-shaped
  when it is a pair of numbers; the code reads the elements 0 and 1 only.\<close>

fun is_number :: "pyval \<Rightarrow> bool" where
  "is_number (PyInt n) = True"
| "is_number (PyFloat f) = True"
| "is_number (PyBool b) = True"
| "is_number _ = False"

definition is_pair_of_numbers :: "pyval \<Rightarrow> bool" where
  "is_pair_of_numbers ts =
     (case ts of PyList [a, b] \<Rightarrow> is_number a \<and> is_number b | _ \<Rightarrow> False)"

definition lacks_two_numbers :: "pyval \<Rightarrow> bool" where
  "lacks_two_numbers ts =
     (case ts of
        PyList (a # b # rest) \<Rightarrow> \<not> is_number a \<or> \<not> is_number b
      | _ \<Rightarrow> True)"

definition defective_chunk :: "pyval \<Rightarrow> bool" where
  "defective_chunk c =
     (case c of
        PyDict kvs \<Rightarrow>
          (case map_of kvs ''timestamp'' of
             None \<Rightarrow> True
           | Some ts \<Rightarrow> lacks_two_numbers ts \<or> map_of kvs ''text'' = None)
      | _ \<Rightarrow> True)"

definition defective_input :: "pyval \<Rightarrow> bool" where
  "defective_input data =
     (case data of
        PyDict kvs \<Rightarrow>
          (case map_of kvs ''chunks'' of
             None \<Rightarrow> True
           | Some chunks \<Rightarrow>
               (case py_iter chunks of
                  Inl err \<Rightarrow> False
                | Inr cs \<Rightarrow> list_ex defective_chunk cs))
      | _ \<Rightarrow> False)"



text \<open>The blocks of an SRT text: a block ends at an empty line, that is at a newline
  that directly follows the newline ending a line of the block. \<open>scan_blocks\<close> keeps the
  block read so far in reverse. \<open>has_blank_line\<close>: two newlines in a row.\<close>

fun scan_blocks :: "string \<Rightarrow> string \<Rightarrow> string list" where
  "scan_blocks acc [] = (if acc = [] then [] else [rev acc])"
| "scan_blocks acc (c # cs) =
     (if c = CHR ''\<newline>'' \<and> acc \<noteq> [] \<and> hd acc = CHR ''\<newline>''
      then rev acc # scan_blocks [] cs
      else scan_blocks (c # acc) cs)"

definition split_blocks :: "string \<Rightarrow> string list" where
  "split_blocks s = scan_blocks [] s"

fun has_blank_line :: "string \<Rightarrow> bool" where
  "has_blank_line (a # b # cs) =
     ((a = CHR ''\<newline>'' \<and> b = CHR ''\<newline>'') \<or> has_blank_line (b # cs))"
| "has_blank_line _ = False"

definition plain_text :: "string \<Rightarrow> bool" where
  "plain_text t = (t \<noteq> [] \<and> \<not> has_blank_line t)"

text \<open>The exception classes the converter can raise.\<close>

fun raised_by_converter :: "exn \<Rightarrow> bool" where
  "raised_by_converter KeyError = True"
| "raised_by_converter IndexError = True"
| "raised_by_converter TypeError = True"
| "raised_by_converter AttributeError = True"
| "raised_by_converter OverflowError = True"
| "raised_by_converter ValueError = True"
| "raised_by_converter _ = False"

text \<open>A world with no files and nothing printed, and the content of a file after a
  run of the writer.\<close>

definition empty_world :: world where
  "empty_world = \<lparr>files = Map.empty, stdout = []\<rparr>"

definition written :: "string \<Rightarrow> exn + world \<Rightarrow> string option" where
  "written path r = (case r of Inl err \<Rightarrow> None | Inr w \<Rightarrow> files w path)"

text \<open>The example input of the module (the doubles 5.5, 10.2 and 15.8 written as
  mantissa and exponent), and its typed view.\<close>

definition input_data :: pyval where
  "input_data =
     PyDict [(''speakers'', PyList []),
             (''chunks'', PyList [
                PyDict [(''timestamp'', PyList [PyInt 0, PyFloat (Finite 11 (- 1))]),
                        (''text'', PyStr ''Hello, this is the first subtitle.'')],
                PyDict [(''timestamp'',
                           PyList [PyInt 6, PyFloat (Finite 5742089524897382 (- 49))]),
                        (''text'', PyStr ''And this is the second one.'')],
                PyDict [(''timestamp'',
                           PyList [PyInt 11, PyFloat (Finite 8894609264056730 (- 49))]),
                        (''text'', PyStr ''Finally, the third subtitle.'')]])]"

definition input_chunks :: "chunk list" where
  "input_chunks =
     [\<lparr>chunk_timestamp = (PyInt 0, PyFloat (Finite 11 (- 1))),
       chunk_text = ''Hello, this is the first subtitle.''\<rparr>,
      \<lparr>chunk_timestamp = (PyInt 6, PyFloat (Finite 5742089524897382 (- 49))),
       chunk_text = ''And this is the second one.''\<rparr>,
      \<lparr>chunk_timestamp = (PyInt 11, PyFloat (Finite 8894609264056730 (- 49))),
       chunk_text = ''Finally, the third subtitle.''\<rparr>]"

section \<open>Evaluation and arithmetic lemmas\<close>

lemma replicate_numeral: "replicate (numeral k) x = x # replicate (pred_numeral k) x"
  by (simp add: numeral_eq_Suc)

lemmas eval_defs = str_nat.simps digit_char_def fmt_0d_def zero_pad_def
  timedelta_seconds_def normalize_def bitlen.simps int_truediv_def floor_log2_quot_def
  rhe_div_def modf_int_def modf_frac_def round_to_double_def py_round_def format_time_def
  Let_def replicate_numeral

lemma bitlen_le: "n < 2 ^ j \<Longrightarrow> bitlen n \<le> j"
proof (induction j arbitrary: n)
  case 0
  then show ?case by (simp add: bitlen.simps)
next
  case (Suc j)
  have "n div 2 < 2 ^ j" using Suc.prems by simp
  then have "bitlen (n div 2) \<le> j" by (rule Suc.IH)
  then show ?case by (subst bitlen.simps) simp
qed

lemma bitlen_pos: "0 < n \<Longrightarrow> 1 \<le> bitlen n"
  by (subst bitlen.simps) simp

lemma rhe_div_cases: "rhe_div n d = n div d \<or> rhe_div n d = n div d + 1"
  by (simp add: rhe_div_def Let_def)

lemma rhe_div_bounds:
  fixes u P :: int
  assumes u: "0 \<le> u" and P: "1000 < P"
  shows "u div 1000 * P \<le> rhe_div (u * P) 1000"
    and "rhe_div (u * P) 1000 < u div 1000 * P + P"
proof -
  define c where "c = u div 1000"
  define t where "t = u mod 1000"
  have ut: "u = 1000 * c + t" and t: "0 \<le> t" "t \<le> 999"
    by (simp_all add: c_def t_def)
  have X: "u * P = 1000 * (c * P) + t * P"
    by (simp add: ut algebra_simps)
  have Z0: "0 \<le> t * P" using t P by simp
  have Z1: "t * P \<le> 999 * P" using t P by (intro mult_right_mono) simp_all
  define m where "m = rhe_div (u * P) 1000"
  have "m = (u * P) div 1000 \<or> m = (u * P) div 1000 + 1"
    unfolding m_def by (rule rhe_div_cases)
  then have "c * P \<le> m" and "m < c * P + P"
    using X Z0 Z1 P by linarith+
  then show "u div 1000 * P \<le> rhe_div (u * P) 1000"
    and "rhe_div (u * P) 1000 < u div 1000 * P + P"
    by (simp_all add: m_def c_def)
qed


lemma rhe_div_le:
  assumes "n \<le> X * d" and d: "0 < d"
  shows "rhe_div n d \<le> X"
proof -
  have q: "n div d \<le> X" using assms by (metis zdiv_mono1 nonzero_mult_div_cancel_right less_irrefl)
  show ?thesis
  proof (cases "n div d = X")
    case True
    have e: "d * X + n mod d = n" using True mult_div_mod_eq [of d n] by simp
    have p: "0 \<le> n mod d" using d by simp
    have "X * d = d * X" by simp
    with e p assms(1) have "n mod d = 0" by linarith
    then show ?thesis using True d by (simp add: rhe_div_def Let_def)
  next
    case False
    then show ?thesis using q rhe_div_cases [of n d] by linarith
  qed
qed

lemma rhe_div_nonpos: "n \<le> 0 \<Longrightarrow> 0 < d \<Longrightarrow> rhe_div n d \<le> 0"
  using rhe_div_le [of n 0 d] by simp


lemma py_round_round_nonpos: "m \<le> 0 \<Longrightarrow> py_round (round_to_double m e) \<le> 0"
  by (simp add: py_round_def round_to_double_def Let_def rhe_div_nonpos mult_le_0_iff)





text \<open>\<open>int(microseconds / 1000)\<close> is the integer quotient: the float division never
  rounds up to the next integer.\<close>

lemma milliseconds_trunc:
  assumes u0: "0 \<le> u" and u1: "u < 1000000"
  shows "\<exists>q. int_truediv u 1000 = Inr q \<and> py_int q = Inr (u div 1000)"
proof (cases "u = 0")
  case True
  then show ?thesis by (simp add: int_truediv_def modf_int_def)
next
  case False
  with u0 have upos: "0 < u" by simp
  define k where "k = floor_log2_quot u 1000"
  have "nat u < 2 ^ 20" using u0 u1 by simp
  then have b1: "bitlen (nat u) \<le> 20" by (rule bitlen_le)
  have b0: "1 \<le> bitlen (nat u)" by (rule bitlen_pos) (use upos in simp)
  have b2: "bitlen (nat 1000) = 10" by (simp add: bitlen.simps)
  have k: "- 10 \<le> k" "k \<le> 10"
    unfolding k_def floor_log2_quot_def Let_def b2 using b0 b1 by (auto split: if_splits)
  define n where "n = nat (52 - k)"
  have n: "42 \<le> n" "n \<le> 62" using k by (simp_all add: n_def)
  define P :: int where "P = 2 ^ n"
  have "(2::int) ^ 42 \<le> 2 ^ n" using n by (intro power_increasing) simp_all
  then have P0: "1000 < P" by (simp add: P_def)
  have "(2::int) ^ n \<le> 2 ^ 62" using n by (intro power_increasing) simp_all
  then have P1: "P \<le> 2 ^ 62" by (simp add: P_def)
  define m where "m = rhe_div (u * P) 1000"
  have lo: "u div 1000 * P \<le> m" and hi: "m < u div 1000 * P + P"
    unfolding m_def using rhe_div_bounds [OF u0 P0] by simp_all
  have c: "0 \<le> u div 1000" "u div 1000 \<le> 999" using u0 u1 by simp_all
  have "0 \<le> u div 1000 * P" using c P0 by simp
  with lo have m0: "0 \<le> m" by simp
  have "u div 1000 * P \<le> 999 * P" using c P0 by (intro mult_right_mono) simp_all
  with hi P1 have m1: "m < 2 ^ 1024" by simp
  have mdiv: "m div P = u div 1000"
  proof (rule int_div_pos_eq)
    show "m = P * (u div 1000) + (m - u div 1000 * P)" by (simp add: algebra_simps)
    show "0 \<le> m - u div 1000 * P" using lo by simp
    show "m - u div 1000 * P < P" using hi by simp
  qed
  have e: "max (k - 52) (- 1074) = k - 52" using k by simp
  have ne: "nat (k - 52) = 0" "nat (- (k - 52)) = n" "nat (52 - k) = n"
    using k by (simp_all add: n_def)
  have td: "int_truediv u 1000 = Inr (Finite m (k - 52))"
    unfolding int_truediv_def Let_def
    using upos m1 by (simp add: k_def [symmetric] e ne P_def [symmetric] m_def [symmetric])
  have "modf_int m (k - 52) = m div P"
    using k m0 by (simp add: modf_int_def ne P_def sgn_if)
  then show ?thesis by (simp add: td mdiv)
qed

lemma day_seconds: "(us mod 86400000000) div 1000000 = us div 1000000 mod 86400" for us :: int
proof -
  have "us mod (1000000 * 86400) = 1000000 * (us div 1000000 mod 86400) + us mod 1000000"
    by (rule zmod_zmult2_eq) simp
  then show ?thesis by simp
qed

lemma day_microseconds: "(us mod 86400000000) mod 1000000 = us mod 1000000" for us :: int
  by (simp add: mod_mod_cancel)

text \<open>The formatter renders the rounded count of microseconds modulo one day.\<close>

lemma format_time_clock:
  assumes us: "total_microseconds x = Inr us"
    and range: "\<bar>us div 1000000 div 86400\<bar> \<le> 999999999"
  shows "format_time x = Inr (clock (us mod 86400000000))"
proof -
  have r: "0 \<le> us mod 1000000" "us mod 1000000 < 1000000" by simp_all
  obtain q where q: "int_truediv (us mod 1000000) 1000 = Inr q"
      "py_int q = Inr (us mod 1000000 div 1000)"
    using milliseconds_trunc [OF r] by blast
  have td: "timedelta_seconds x = Inr \<lparr>days = us div 1000000 div 86400,
      seconds = us div 1000000 mod 86400, microseconds = us mod 1000000\<rparr>"
    using range by (simp add: timedelta_seconds_def us normalize_def Let_def)
  have m: "us div 1000000 mod 86400 mod 3600 mod 60 = us div 1000000 mod 86400 mod 60"
    by (simp add: mod_mod_cancel)
  have ft: "format_time x = Inr (fmt_0d 2 (us div 1000000 mod 86400 div 3600) @ '':''
     @ fmt_0d 2 (us div 1000000 mod 86400 mod 3600 div 60) @ '':''
     @ fmt_0d 2 (us div 1000000 mod 86400 mod 3600 mod 60) @ '',''
     @ fmt_0d 3 (us mod 1000000 div 1000))"
    unfolding format_time_def td Let_def by (simp add: q)
  show ?thesis
    unfolding ft clock_def day_seconds day_microseconds m ..
qed

lemma total_microseconds_negative:
  assumes "is_negative x" and "total_microseconds x = Inr us"
  shows "us \<le> 0"
proof (cases x)
  case (PyInt n)
  then show ?thesis using assms by auto
next
  case (PyFloat f)
  then obtain m e where f: "f = Finite m e" and m: "m < 0"
    using assms(1) by (cases f) simp_all
  define R where "R = py_round (round_to_double (modf_frac m e * 1000000) e)"
  have us: "us = modf_int m e * 1000000 + R"
    using assms(2) by (simp add: PyFloat f R_def)
  have w: "modf_int m e \<le> 0"
    using m by (simp add: modf_int_def sgn_if mult_le_0_iff pos_imp_zdiv_nonneg_iff)
  have fr: "modf_frac m e \<le> 0" using m by (simp add: modf_frac_def sgn_if)
  have "R \<le> 0" unfolding R_def using fr by (intro py_round_round_nonpos) simp
  then show ?thesis using us w by simp
qed (use assms in simp_all)




section \<open>The formatter on literal inputs\<close>

lemma format_time_0: "format_time (PyInt 0) = Inr ''00:00:00,000''"
  by (simp add: eval_defs)

lemma format_time_6: "format_time (PyInt 6) = Inr ''00:00:06,000''"
  by (simp add: eval_defs)

lemma format_time_5_5: "format_time (PyFloat (Finite 11 (- 1))) = Inr ''00:00:05,500''"
  by (simp add: eval_defs)

lemma format_time_10_2:
  "format_time (PyFloat (Finite 5742089524897382 (- 49))) = Inr ''00:00:10,200''"
  by (simp add: eval_defs)

text \<open>
  C6: \<open>format_time\<close> maps 0 to \<open>00:00:00,000\<close>, 5.5 to \<open>00:00:05,500\<close>, 3661.25 to
  \<open>01:01:01,250\<close> and 36000 to \<open>10:00:00,000\<close>. The doubles 5.5 and 3661.25 are
  \<open>11 * 2\<^sup>-\<^sup>1\<close> and \<open>14645 * 2\<^sup>-\<^sup>2\<close>.
\<close>

theorem format_time_literal_cases:
  "format_time (PyInt 0) = Inr ''00:00:00,000''
   \<and> format_time (PyFloat (Finite 11 (- 1))) = Inr ''00:00:05,500''
   \<and> format_time (PyFloat (Finite 14645 (- 2))) = Inr ''01:01:01,250''
   \<and> format_time (PyInt 36000) = Inr ''10:00:00,000''"
  by (simp add: eval_defs)

text \<open>
  C1: the hours field counts all whole hours, with no wrap at 24. The code reads
  \<open>time.seconds\<close>, which leaves the days of the duration out: 450000 seconds, 125 hours,
  are rendered as \<open>05:00:00,000\<close>, where the specification's formatter gives
  \<open>125:00:00,000\<close>.
\<close>

theorem format_time_450000_drops_days:
  "format_time (PyInt 450000) = Inr ''05:00:00,000''
   \<and> spec_format_time (PyInt 450000) = ''125:00:00,000''"
  by (simp add: eval_defs spec_format_time_def)

section \<open>Milliseconds and negative inputs\<close>




lemma rhe_div_error:
  assumes d: "0 < d"
  shows "2 * \<bar>rhe_div n d * d - n\<bar> \<le> d"
proof -
  define q where "q = n div d"
  define r where "r = n mod d"
  have n: "n = q * d + r" by (simp add: q_def r_def)
  have r: "0 \<le> r" "r < d" using d by (simp_all add: r_def)
  have "rhe_div n d = q \<and> 2 * r \<le> d \<or> rhe_div n d = q + 1 \<and> d \<le> 2 * r"
    by (auto simp: rhe_div_def Let_def q_def r_def)
  then show ?thesis
  proof
    assume a: "rhe_div n d = q \<and> 2 * r \<le> d"
    have "rhe_div n d * d - n = - r" using a by (simp add: n)
    then show ?thesis using a r by simp
  next
    assume a: "rhe_div n d = q + 1 \<and> d \<le> 2 * r"
    have "rhe_div n d * d - n = d - r" using a by (simp add: n algebra_simps)
    then show ?thesis using a r by simp
  qed
qed

lemma frac_round_error:
  assumes e: "e < 0" and f: "\<bar>f\<bar> < 2 ^ nat (- e)"
  shows "2 ^ 34 * \<bar>py_round (round_to_double (f * 1000000) e) * 2 ^ nat (- e) - f * 1000000\<bar>
         \<le> (2 ^ 33 + 1) * 2 ^ nat (- e)"
proof -
  define k where "k = nat (- e)"
  define K :: int where "K = 2 ^ k"
  define M where "M = f * 1000000"
  define R where "R = py_round (round_to_double M e)"
  have K0: "0 < K" by (simp add: K_def)
  have M1: "\<bar>M\<bar> < 1000000 * K" using f by (simp add: M_def K_def k_def abs_mult)
  have goal: "2 * \<bar>R * K - M\<bar> \<le> K + K div 2 ^ 33"
  proof (cases "bitlen (nat \<bar>M\<bar>) \<le> 53")
    case True
    then have "R = rhe_div M K"
      using e by (simp add: R_def round_to_double_def py_round_def k_def K_def)
    then have "2 * \<bar>R * K - M\<bar> \<le> K" using rhe_div_error [OF K0, of M] by simp
    moreover have "0 \<le> K div 2 ^ 33" using K0 by (simp add: pos_imp_zdiv_nonneg_iff)
    ultimately show ?thesis by linarith
  next
    case False
    define s where "s = bitlen (nat \<bar>M\<bar>) - 53"
    have "\<bar>M\<bar> < 1048576 * K" using M1 K0 by linarith
    then have "nat \<bar>M\<bar> < 2 ^ (20 + k)"
      by (simp add: power_add nat_less_iff K_def)
    then have "bitlen (nat \<bar>M\<bar>) \<le> 20 + k" by (rule bitlen_le)
    then have sk: "s + 33 \<le> k" using False by (simp add: s_def)
    define D1 :: int where "D1 = 2 ^ s"
    define D2 :: int where "D2 = 2 ^ (k - s)"
    have D: "0 < D1" "0 < D2" by (simp_all add: D1_def D2_def)
    have "(2::int) ^ k = 2 ^ ((k - s) + s)" using sk by simp
    then have KD: "K = D2 * D1" by (simp only: power_add K_def D1_def D2_def)
    have "(2::int) ^ (s + 33) \<le> 2 ^ k" using sk by (intro power_increasing) simp_all
    then have DK: "D1 * 2 ^ 33 \<le> K" by (simp only: power_add D1_def K_def)
    have "(D1 * 2 ^ 33) div 2 ^ 33 \<le> K div 2 ^ 33" using DK by (rule zdiv_mono1) simp
    then have D1K: "D1 \<le> K div 2 ^ 33" by simp
    define M' where "M' = rhe_div M D1"
    have ne: "nat (- (e + int s)) = k - s" "\<not> 0 \<le> e + int s"
      using sk e by (simp_all add: k_def)
    have "R = rhe_div M' D2"
      using False ne
      by (simp add: R_def round_to_double_def py_round_def Let_def s_def M'_def D1_def D2_def)
    then have e2: "2 * \<bar>R * D2 - M'\<bar> \<le> D2" using rhe_div_error [OF D(2), of M'] by simp
    have e1: "2 * \<bar>M' * D1 - M\<bar> \<le> D1"
      unfolding M'_def using rhe_div_error [OF D(1), of M] by simp
    have split: "R * K - M = (R * D2 - M') * D1 + (M' * D1 - M)"
      by (simp add: KD algebra_simps)
    have "\<bar>R * K - M\<bar> \<le> \<bar>(R * D2 - M') * D1\<bar> + \<bar>M' * D1 - M\<bar>"
      unfolding split by (rule abs_triangle_ineq)
    also have "\<bar>(R * D2 - M') * D1\<bar> = \<bar>R * D2 - M'\<bar> * D1"
      using D(1) by (simp add: abs_mult)
    finally have tri: "\<bar>R * K - M\<bar> \<le> \<bar>R * D2 - M'\<bar> * D1 + \<bar>M' * D1 - M\<bar>" .
    have "(2 * \<bar>R * D2 - M'\<bar>) * D1 \<le> D2 * D1"
      using e2 D(1) by (intro mult_right_mono) simp_all
    then have dbl: "2 * (\<bar>R * D2 - M'\<bar> * D1) \<le> K" by (simp add: KD mult.assoc)
    define X where "X = \<bar>R * K - M\<bar>"
    define A where "A = \<bar>R * D2 - M'\<bar> * D1"
    define B where "B = \<bar>M' * D1 - M\<bar>"
    define Q where "Q = K div 2 ^ 33"
    have "2 * A \<le> K" "X \<le> A + B" "2 * B \<le> D1" "D1 \<le> Q"
      using dbl tri e1 D1K by (simp_all add: X_def A_def B_def Q_def)
    then have "2 * X \<le> K + Q" by linarith
    then show ?thesis by (simp add: X_def Q_def)
  qed
  define X where "X = \<bar>R * K - M\<bar>"
  define Q where "Q = K div 2 ^ 33"
  have g: "2 * X \<le> K + Q" using goal by (simp add: X_def Q_def)
  have q: "8589934592 * Q \<le> K" unfolding Q_def by simp
  have "17179869184 * X \<le> 8589934593 * K" using g q by linarith
  then show ?thesis by (simp add: X_def R_def M_def K_def k_def)
qed


lemma total_microseconds_float:
  assumes "total_microseconds (PyFloat (Finite m e)) = Inr us"
  shows "(0 \<le> e \<longrightarrow> us = m * 2 ^ nat e * 1000000)
     \<and> (e < 0 \<longrightarrow> 2 ^ 34 * \<bar>us * 2 ^ nat (- e) - m * 1000000\<bar> \<le> (2 ^ 33 + 1) * 2 ^ nat (- e))"
proof (cases "0 \<le> e")
  case True
  then show ?thesis
    using assms
    by (simp add: modf_int_def modf_frac_def round_to_double_def py_round_def bitlen.simps)
next
  case False
  define K :: int where "K = 2 ^ nat (- e)"
  define f where "f = modf_frac m e"
  define R where "R = py_round (round_to_double (f * 1000000) e)"
  have K0: "0 < K" by (simp add: K_def)
  have fdef: "f = sgn m * (\<bar>m\<bar> mod K)" using False by (simp add: f_def modf_frac_def K_def)
  have idef: "modf_int m e = sgn m * (\<bar>m\<bar> div K)"
    using False by (simp add: modf_int_def K_def)
  have dm: "\<bar>m\<bar> div K * K + \<bar>m\<bar> mod K = \<bar>m\<bar>" by simp
  have "sgn m * (\<bar>m\<bar> div K * K + \<bar>m\<bar> mod K) = sgn m * \<bar>m\<bar>" by (simp only: dm)
  then have "sgn m * (\<bar>m\<bar> div K) * K + sgn m * (\<bar>m\<bar> mod K) = m"
    by (simp only: distrib_left mult.assoc mult_sgn_abs)
  then have m: "m = modf_int m e * K + f" by (simp only: idef fdef)
  have "\<bar>f\<bar> = \<bar>sgn m\<bar> * (\<bar>m\<bar> mod K)" using K0 by (simp add: fdef abs_mult)
  also have "\<dots> \<le> \<bar>m\<bar> mod K" using K0 by (simp add: sgn_if)
  also have "\<dots> < K" using K0 by simp
  finally have fK: "\<bar>f\<bar> < 2 ^ nat (- e)" by (simp add: K_def)
  have us: "us = modf_int m e * 1000000 + R" using assms by (simp add: R_def f_def)
  have mm: "m * 1000000 = (modf_int m e * K + f) * 1000000"
    by (rule arg_cong [where f = "\<lambda>z. z * 1000000", OF m])
  have "us * K - m * 1000000 = R * K - f * 1000000"
    unfolding mm us by (simp add: algebra_simps)
  moreover have "2 ^ 34 * \<bar>R * K - f * 1000000\<bar> \<le> (2 ^ 33 + 1) * K"
    unfolding R_def K_def using False fK by (intro frac_round_error) simp_all
  ultimately show ?thesis using False by (simp add: K_def)
qed

text \<open>
  C10: for every finite negative number the duration type can hold, \<open>format_time\<close>
  returns a string: the clock rendering of the count \<open>us\<close> of microseconds of the input
  modulo one day. For an int \<open>n\<close> that is the rendering of \<open>n mod 86400\<close> seconds; for a
  float \<open>m * 2 ^ e\<close> the count is exact when \<open>0 \<le> e\<close> and otherwise within
  \<open>1/2 + 2\<^sup>-\<^sup>3\<^sup>4\<close> of the exact \<open>m * 2 ^ e * 10\<^sup>6\<close>.
\<close>

theorem format_time_negative:
  assumes "is_negative x" and "in_timedelta_range x"
  shows "\<exists>us. total_microseconds x = Inr us \<and> us \<le> 0
      \<and> format_time x = Inr (clock (us mod 86400000000))
      \<and> (\<forall>n. x = PyInt n \<longrightarrow> format_time x = Inr (clock (n mod 86400 * 1000000)))
      \<and> (\<forall>m e. x = PyFloat (Finite m e) \<longrightarrow>
            (0 \<le> e \<longrightarrow> us = m * 2 ^ nat e * 1000000)
          \<and> (e < 0 \<longrightarrow> 2 ^ 34 * \<bar>us * 2 ^ nat (- e) - m * 1000000\<bar>
                          \<le> (2 ^ 33 + 1) * 2 ^ nat (- e)))"
proof -
  obtain us where us: "total_microseconds x = Inr us"
    and range: "\<bar>us div 1000000 div 86400\<bar> \<le> 999999999"
    using assms(2) by (auto simp: in_timedelta_range_def split: sum.splits)
  have ft: "format_time x = Inr (clock (us mod 86400000000))"
    using us range by (rule format_time_clock)
  have int: "us mod 86400000000 = n mod 86400 * 1000000" if "x = PyInt n" for n
  proof -
    have "us = n * 1000000" using us that by simp
    moreover have "n * 1000000 mod (86400 * 1000000) = n mod 86400 * 1000000"
      by (rule mult_mod_left [symmetric])
    ultimately show ?thesis by simp
  qed
  have flt: "(0 \<le> e \<longrightarrow> us = m * 2 ^ nat e * 1000000)
     \<and> (e < 0 \<longrightarrow> 2 ^ 34 * \<bar>us * 2 ^ nat (- e) - m * 1000000\<bar> \<le> (2 ^ 33 + 1) * 2 ^ nat (- e))"
    if "x = PyFloat (Finite m e)" for m e
    using us that by (intro total_microseconds_float) simp
  show ?thesis
    using us ft int flt total_microseconds_negative [OF assms(1) us] by auto
qed

theorem format_time_negative_witness:
  "is_negative (PyInt (- 1)) \<and> in_timedelta_range (PyInt (- 1))
   \<and> format_time (PyInt (- 1)) = Inr ''23:59:59,000''
   \<and> is_negative (PyFloat (Finite (- 1) (- 1)))
   \<and> in_timedelta_range (PyFloat (Finite (- 1) (- 1)))
   \<and> total_microseconds (PyFloat (Finite (- 1) (- 1))) = Inr (- 500000)
   \<and> format_time (PyFloat (Finite (- 1) (- 1))) = Inr ''23:59:59,500''"
proof -
  have h1: "is_negative (PyInt (- 1))" by simp
  have h2: "in_timedelta_range (PyInt (- 1))" by (simp add: in_timedelta_range_def)
  have c: "clock 86399000000 = ''23:59:59,000''"
    by (simp add: clock_def eval_defs)
  have a: "format_time (PyInt (- 1)) = Inr ''23:59:59,000''"
    using format_time_negative [OF h1 h2] by (simp add: c)
  have g1: "is_negative (PyFloat (Finite (- 1) (- 1)))" by simp
  have us: "total_microseconds (PyFloat (Finite (- 1) (- 1))) = Inr (- 500000)"
    by (simp add: eval_defs)
  have g2: "in_timedelta_range (PyFloat (Finite (- 1) (- 1)))"
    unfolding in_timedelta_range_def us by simp
  have c': "clock 86399500000 = ''23:59:59,500''"
    by (simp add: clock_def eval_defs)
  from format_time_negative [OF g1 g2] obtain u
    where u: "total_microseconds (PyFloat (Finite (- 1) (- 1))) = Inr u"
      and f: "format_time (PyFloat (Finite (- 1) (- 1))) = Inr (clock (u mod 86400000000))"
    by blast
  have "u = - 500000" using u unfolding us by simp
  then have b: "format_time (PyFloat (Finite (- 1) (- 1))) = Inr ''23:59:59,500''"
    by (simp add: f c')
  show ?thesis using h1 h2 a g1 g2 us b by simp
qed


section \<open>The converter on well-formed input\<close>

lemma format_time_in_range:
  assumes "in_timedelta_range t"
  shows "format_time t = Inr (formatted t)"
proof -
  obtain us where us: "total_microseconds t = Inr us"
    and range: "\<bar>us div 1000000 div 86400\<bar> \<le> 999999999"
    using assms by (auto simp: in_timedelta_range_def split: sum.splits)
  have "format_time t = Inr (clock (us mod 86400000000))"
    using us range by (rule format_time_clock)
  then show ?thesis by (simp add: formatted_def)
qed

lemma as_chunk_SomeD:
  assumes "as_chunk c = Some ch"
  shows "\<exists>kvs t0 t1 s. c = PyDict kvs
      \<and> map_of kvs ''timestamp'' = Some (PyList [t0, t1])
      \<and> map_of kvs ''text'' = Some (PyStr s)
      \<and> in_timedelta_range t0 \<and> in_timedelta_range t1
      \<and> ch = \<lparr>chunk_timestamp = (t0, t1), chunk_text = s\<rparr>"
  using assms unfolding as_chunk_def
  by (auto split: pyval.splits option.splits list.splits if_splits)

lemma render_chunk_well_formed:
  assumes "as_chunk c = Some ch"
  shows "render_chunk (int i) c = Inr (srt_block i ch)"
proof -
  obtain kvs t0 t1 s where c: "c = PyDict kvs"
    and ts: "map_of kvs ''timestamp'' = Some (PyList [t0, t1])"
    and tx: "map_of kvs ''text'' = Some (PyStr s)"
    and r0: "in_timedelta_range t0" and r1: "in_timedelta_range t1"
    and ch: "ch = \<lparr>chunk_timestamp = (t0, t1), chunk_text = s\<rparr>"
    using as_chunk_SomeD [OF assms] by blast
  show ?thesis
    unfolding render_chunk_def c
    by (simp add: bind_def ts tx format_time_in_range [OF r0] format_time_in_range [OF r1]
        srt_block_def ch)
qed

lemma chunk_loop_well_formed:
  "those (map as_chunk cs) = Some chs \<Longrightarrow>
   chunk_loop cs acc (int i) =
     Inr (acc @ map (\<lambda>(j, c). srt_block j c) (zip [i..<i + length chs] chs))"
proof (induction cs arbitrary: chs acc i)
  case Nil
  then show ?case by simp
next
  case (Cons c cs)
  from Cons.prems obtain ch chs' where ch: "as_chunk c = Some ch"
    and chs': "those (map as_chunk cs) = Some chs'" and chs: "chs = ch # chs'"
    by (auto split: option.splits)
  have up: "[i..<i + length (ch # chs')] = i # [Suc i..<Suc i + length chs']"
    by (subst upt_rec) simp
  have "chunk_loop (c # cs) acc (int i) =
      chunk_loop cs (acc @ [srt_block i ch]) (int (Suc i))"
    by (simp add: render_chunk_well_formed [OF ch] bind_def add.commute)
  also have "\<dots> = Inr ((acc @ [srt_block i ch])
      @ map (\<lambda>(j, c). srt_block j c) (zip [Suc i..<Suc i + length chs'] chs'))"
    by (rule Cons.IH [OF chs'])
  also have "\<dots> = Inr (acc @ map (\<lambda>(j, c). srt_block j c) (zip [i..<i + length chs] chs))"
    unfolding chs up by simp
  finally show ?case .
qed

lemma srt_blocks_well_formed:
  assumes "transcript data = Some chunks"
  shows "srt_blocks data =
     Inr (map (\<lambda>(j, c). srt_block j c) (zip [1..<Suc (length chunks)] chunks))"
proof -
  obtain kvs cs where d: "data = PyDict kvs" and k: "map_of kvs ''chunks'' = Some (PyList cs)"
    and th: "those (map as_chunk cs) = Some chunks"
    using assms unfolding transcript_def
    by (auto split: pyval.splits option.splits)
  have "chunk_loop cs [] (int 1) =
      Inr ([] @ map (\<lambda>(j, c). srt_block j c) (zip [1..<1 + length chunks] chunks))"
    using th by (rule chunk_loop_well_formed)
  then show ?thesis by (simp add: srt_blocks_def d k bind_def)
qed

lemma py_strip_trim: "is_trim_of s (py_strip s)"
proof -
  define rest where "rest = dropWhile is_space s"
  define t where "t = rev (dropWhile is_space (rev rest))"
  define suf where "suf = rev (takeWhile is_space (rev rest))"
  have s: "s = takeWhile is_space s @ rest" by (simp add: rest_def)
  have "rest = rev (takeWhile is_space (rev rest) @ dropWhile is_space (rev rest))"
    by (simp only: takeWhile_dropWhile_id rev_rev_ident)
  also have "\<dots> = t @ suf" by (simp only: rev_append t_def suf_def)
  finally have rest: "rest = t @ suf" .
  have pre: "\<forall>c \<in> set (takeWhile is_space s). is_space c" by (auto dest: set_takeWhileD)
  have sufs: "\<forall>c \<in> set suf. is_space c" by (auto simp: suf_def dest: set_takeWhileD)
  have ends: "\<not> is_space (hd t) \<and> \<not> is_space (last t)" if "t \<noteq> []"
  proof
    from that rest have "rest \<noteq> []" "hd t = hd rest" by auto
    then show "\<not> is_space (hd t)" unfolding rest_def using hd_dropWhile by metis
    from that have ne: "dropWhile is_space (rev rest) \<noteq> []" by (simp add: t_def)
    have "last t = hd (dropWhile is_space (rev rest))" using ne by (simp add: t_def last_rev)
    then show "\<not> is_space (last t)" using ne hd_dropWhile by metis
  qed
  have "py_strip s = t" by (simp add: py_strip_def t_def rest_def)
  moreover have "s = takeWhile is_space s @ t @ suf" using s rest by simp
  ultimately show ?thesis unfolding is_trim_of_def using pre sufs ends by blast
qed

lemma str_nat_digits: "set (str_nat n) \<subseteq> set ''0123456789''"
proof (induction n rule: str_nat.induct)
  case (1 n)
  have d: "digit_char k \<in> set ''0123456789''" if "k < 10" for k
    unfolding digit_char_def using that by (intro nth_mem) simp
  show ?case
  proof (cases "n < 10")
    case True
    then show ?thesis using d [of n] by (subst str_nat.simps) simp
  next
    case False
    then show ?thesis using 1 d [of "n mod 10"] by (subst str_nat.simps) simp
  qed
qed

lemma first_line_srt_block:
  "takeWhile (\<lambda>c. c \<noteq> CHR ''\<newline>'') (srt_block i ch) = py_str_int (int i)"
proof -
  have "\<forall>c \<in> set (str_nat i). c \<noteq> CHR ''\<newline>''" using str_nat_digits [of i] by auto
  then show ?thesis by (simp add: srt_block_def py_str_int_def takeWhile_append2)
qed


lemma those_map_set:
  "those (map f xs) = Some ys \<Longrightarrow> y \<in> set ys \<Longrightarrow> \<exists>x \<in> set xs. f x = Some y"
proof (induction xs arbitrary: ys)
  case Nil
  then show ?case by simp
next
  case (Cons x xs)
  then show ?case by (auto split: option.splits)
qed

lemma transcript_chunk_in_range:
  assumes "transcript data = Some chunks" and "c \<in> set chunks"
  shows "in_timedelta_range (fst (chunk_timestamp c))
       \<and> in_timedelta_range (snd (chunk_timestamp c))"
proof -
  obtain cs where "those (map as_chunk cs) = Some chunks"
    using assms(1) unfolding transcript_def by (auto split: pyval.splits option.splits)
  then obtain x where "as_chunk x = Some c"
    using assms(2) those_map_set by fastforce
  then show ?thesis using as_chunk_SomeD by fastforce
qed

lemma format_time_11: "format_time (PyInt 11) = Inr ''00:00:11,000''"
  by (simp add: eval_defs)

lemma format_time_15_8:
  "format_time (PyFloat (Finite 8894609264056730 (- 49))) = Inr ''00:00:15,800''"
  by (simp add: eval_defs)

lemma example_strip:
  "py_strip ''Hello, this is the first subtitle.'' = ''Hello, this is the first subtitle.''"
  "py_strip ''And this is the second one.'' = ''And this is the second one.''"
  "py_strip ''Finally, the third subtitle.'' = ''Finally, the third subtitle.''"
  by (simp_all add: py_strip_def is_space_def)

lemma transcript_input_data: "transcript input_data = Some input_chunks"
  by (simp add: input_data_def input_chunks_def transcript_def as_chunk_def
      in_timedelta_range_def eval_defs)

text \<open>
  C4: for every well-formed transcript the converter returns the document of the
  specification: per chunk, in order, the block of the three lines 1-based index,
  \<open>start --> end\<close> with both ends as the formatter returns them, and the text without
  its leading and trailing whitespace (the rest, inner newlines included, untouched),
  each line ended by a newline; the blocks joined by one empty line, nothing after the
  last block; the empty string for no chunks.
\<close>

theorem convert_renders_document:
  assumes "transcript data = Some chunks"
  shows "convert_object_to_srt data = Inr (srt_document chunks)
     \<and> (chunks = [] \<longrightarrow> convert_object_to_srt data = Inr [])
     \<and> (\<forall>c \<in> set chunks.
           format_time (fst (chunk_timestamp c)) = Inr (formatted (fst (chunk_timestamp c)))
         \<and> format_time (snd (chunk_timestamp c)) = Inr (formatted (snd (chunk_timestamp c)))
         \<and> is_trim_of (chunk_text c) (py_strip (chunk_text c)))"
proof -
  have doc: "convert_object_to_srt data = Inr (srt_document chunks)"
    by (simp add: convert_object_to_srt_def srt_blocks_well_formed [OF assms] bind_def
        srt_document_def)
  have "srt_document [] = []" by (simp add: srt_document_def)
  then show ?thesis
    using doc transcript_chunk_in_range [OF assms] format_time_in_range py_strip_trim
    by auto
qed

theorem convert_renders_document_witness:
  "transcript input_data = Some input_chunks
   \<and> convert_object_to_srt input_data
     = Inr ''1\<newline>00:00:00,000 --> 00:00:05,500\<newline>Hello, this is the first subtitle.\<newline>\<newline>2\<newline>00:00:06,000 --> 00:00:10,200\<newline>And this is the second one.\<newline>\<newline>3\<newline>00:00:11,000 --> 00:00:15,800\<newline>Finally, the third subtitle.\<newline>''"
proof -
  have doc: "srt_document input_chunks
     = ''1\<newline>00:00:00,000 --> 00:00:05,500\<newline>Hello, this is the first subtitle.\<newline>\<newline>2\<newline>00:00:06,000 --> 00:00:10,200\<newline>And this is the second one.\<newline>\<newline>3\<newline>00:00:11,000 --> 00:00:15,800\<newline>Finally, the third subtitle.\<newline>''"
    by (simp add: input_chunks_def srt_document_def srt_block_def formatted_def format_time_0
        format_time_6 format_time_11 format_time_5_5 format_time_10_2 format_time_15_8
        example_strip py_str_int_def str_nat.simps digit_char_def upt_rec)
  show ?thesis
    using convert_renders_document [OF transcript_input_data] transcript_input_data doc
    by simp
qed

lemma scan_no_blank:
  "\<not> has_blank_line s \<Longrightarrow>
   (s \<noteq> [] \<and> hd s = CHR ''\<newline>'' \<longrightarrow> acc = [] \<or> hd acc \<noteq> CHR ''\<newline>'') \<Longrightarrow>
   scan_blocks acc (s @ t) = scan_blocks (rev s @ acc) t"
proof (induction s arbitrary: acc)
  case Nil
  then show ?case by simp
next
  case (Cons c cs)
  have nb: "\<not> has_blank_line cs" using Cons.prems(1) by (cases cs) auto
  have hd: "cs \<noteq> [] \<and> hd cs = CHR ''\<newline>'' \<longrightarrow> c # acc = [] \<or> hd (c # acc) \<noteq> CHR ''\<newline>''"
    using Cons.prems(1) by (cases cs) auto
  have "scan_blocks acc ((c # cs) @ t) = scan_blocks (c # acc) (cs @ t)"
    using Cons.prems(2) by auto
  then show ?case using Cons.IH [OF nb hd] by simp
qed

lemma no_newline_no_blank: "CHR ''\<newline>'' \<notin> set s \<Longrightarrow> \<not> has_blank_line s"
  by (induction s rule: has_blank_line.induct) auto

lemma scan_no_newline:
  assumes "CHR ''\<newline>'' \<notin> set s"
  shows "scan_blocks acc (s @ t) = scan_blocks (rev s @ acc) t"
proof (rule scan_no_blank)
  show "\<not> has_blank_line s" using assms by (rule no_newline_no_blank)
  show "s \<noteq> [] \<and> hd s = CHR ''\<newline>'' \<longrightarrow> acc = [] \<or> hd acc \<noteq> CHR ''\<newline>''"
    using assms by (cases s) auto
qed

lemma scan_line:
  assumes "CHR ''\<newline>'' \<notin> set s" and "s \<noteq> []"
  shows "scan_blocks acc (s @ CHR ''\<newline>'' # t) = scan_blocks (CHR ''\<newline>'' # rev s @ acc) t"
proof -
  have "hd (rev s @ acc) = last s" using assms(2) by (simp add: hd_rev)
  moreover have "last s \<noteq> CHR ''\<newline>''" using assms last_in_set by metis
  ultimately show ?thesis using assms by (simp add: scan_no_newline)
qed

lemma scan_text:
  assumes "\<not> has_blank_line s" and "s \<noteq> []" and "hd s \<noteq> CHR ''\<newline>''"
    and "last s \<noteq> CHR ''\<newline>''"
  shows "scan_blocks acc (s @ CHR ''\<newline>'' # t) = scan_blocks (CHR ''\<newline>'' # rev s @ acc) t"
proof -
  have "scan_blocks acc (s @ CHR ''\<newline>'' # t) = scan_blocks (rev s @ acc) (CHR ''\<newline>'' # t)"
    using assms by (intro scan_no_blank) simp_all
  moreover have "hd (rev s @ acc) = last s" using assms(2) by (simp add: hd_rev)
  ultimately show ?thesis using assms by simp
qed

lemma str_nat_no_newline: "CHR ''\<newline>'' \<notin> set (str_nat n)"
  using str_nat_digits [of n] by auto

lemma fmt_0d_no_newline: "CHR ''\<newline>'' \<notin> set (fmt_0d w i)"
  by (simp add: fmt_0d_def zero_pad_def str_nat_no_newline)

lemma clock_no_newline: "CHR ''\<newline>'' \<notin> set (clock us)"
  by (simp add: clock_def fmt_0d_no_newline)

lemma formatted_no_newline: "CHR ''\<newline>'' \<notin> set (formatted t)"
proof (cases "total_microseconds t")
  case (Inl e)
  then have "format_time t = Inl e" by (simp add: format_time_def timedelta_seconds_def)
  then show ?thesis by (simp add: formatted_def)
next
  case (Inr us)
  show ?thesis
  proof (cases "\<bar>us div 1000000 div 86400\<bar> \<le> 999999999")
    case True
    show ?thesis
      using clock_no_newline by (simp add: formatted_def format_time_clock [OF Inr True])
  next
    case False
    then have "format_time t = Inl OverflowError"
      by (simp add: format_time_def timedelta_seconds_def Inr normalize_def Let_def)
    then show ?thesis by (simp add: formatted_def)
  qed
qed

lemma str_nat_nonempty: "str_nat n \<noteq> []"
  by (subst str_nat.simps) simp

lemma scan_srt_block:
  assumes "plain_text (py_strip (chunk_text c))"
  shows "scan_blocks [] (srt_block i c @ rest) = scan_blocks (rev (srt_block i c)) rest"
proof -
  define A where "A = py_str_int (int i)"
  define B where "B = formatted (fst (chunk_timestamp c)) @ '' --> ''
                       @ formatted (snd (chunk_timestamp c))"
  define T where "T = py_strip (chunk_text c)"
  have A: "CHR ''\<newline>'' \<notin> set A" "A \<noteq> []"
    by (simp_all add: A_def py_str_int_def str_nat_nonempty str_nat_no_newline)
  have B: "CHR ''\<newline>'' \<notin> set B" "B \<noteq> []"
    using formatted_no_newline by (simp_all add: B_def)
  have T0: "T \<noteq> []" "\<not> has_blank_line T" using assms by (simp_all add: plain_text_def T_def)
  have "is_trim_of (chunk_text c) T" unfolding T_def by (rule py_strip_trim)
  then have "\<not> is_space (hd T)" "\<not> is_space (last T)"
    using T0(1) by (auto simp: is_trim_of_def)
  moreover have "is_space (CHR ''\<newline>'')" by (simp add: is_space_def)
  ultimately have T1: "hd T \<noteq> CHR ''\<newline>''" "last T \<noteq> CHR ''\<newline>''" by auto
  have blk: "srt_block i c = A @ CHR ''\<newline>'' # B @ CHR ''\<newline>'' # T @ [CHR ''\<newline>'']"
    by (simp add: srt_block_def A_def B_def T_def)
  have "scan_blocks [] (srt_block i c @ rest)
      = scan_blocks [] (A @ CHR ''\<newline>'' # (B @ CHR ''\<newline>'' # (T @ CHR ''\<newline>'' # rest)))"
    by (simp add: blk)
  also have "\<dots> = scan_blocks (CHR ''\<newline>'' # rev A @ [])
                      (B @ CHR ''\<newline>'' # (T @ CHR ''\<newline>'' # rest))"
    using A by (rule scan_line)
  also have "\<dots> = scan_blocks (CHR ''\<newline>'' # rev B @ (CHR ''\<newline>'' # rev A @ []))
                      (T @ CHR ''\<newline>'' # rest)"
    using B by (rule scan_line)
  also have "\<dots> = scan_blocks (CHR ''\<newline>'' # rev T @ (CHR ''\<newline>'' # rev B @ (CHR ''\<newline>'' # rev A @ [])))
                      rest"
    using T0(2) T0(1) T1 by (rule scan_text)
  also have "\<dots> = scan_blocks (rev (srt_block i c)) rest" by (simp add: blk)
  finally show ?thesis .
qed

lemma srt_block_ends: "srt_block i c \<noteq> [] \<and> last (srt_block i c) = CHR ''\<newline>''"
  by (simp add: srt_block_def)

lemma split_join_blocks:
  "\<forall>b \<in> set bs. b \<noteq> [] \<and> last b = CHR ''\<newline>''
             \<and> (\<forall>rest. scan_blocks [] (b @ rest) = scan_blocks (rev b) rest) \<Longrightarrow>
   scan_blocks [] (join ''\<newline>'' bs) = bs"
proof (induction bs)
  case Nil
  then show ?case by simp
next
  case (Cons x bs)
  have x: "x \<noteq> []" "last x = CHR ''\<newline>''"
    and sx: "\<And>rest. scan_blocks [] (x @ rest) = scan_blocks (rev x) rest"
    using Cons.prems by simp_all
  have IH: "scan_blocks [] (join ''\<newline>'' bs) = bs"
    using Cons.prems by (intro Cons.IH) simp
  show ?case
  proof (cases bs)
    case Nil
    have "scan_blocks [] (x @ []) = scan_blocks (rev x) []" by (rule sx)
    then show ?thesis using x by (simp add: Nil)
  next
    case (Cons y ys)
    have "scan_blocks [] (x @ CHR ''\<newline>'' # join ''\<newline>'' (y # ys))
        = scan_blocks (rev x) (CHR ''\<newline>'' # join ''\<newline>'' (y # ys))"
      by (rule sx)
    also have "\<dots> = x # scan_blocks [] (join ''\<newline>'' (y # ys))"
      using x by (simp add: hd_rev)
    also have "\<dots> = x # bs" using IH by (simp only: Cons)
    finally show ?thesis by (simp add: Cons)
  qed
qed


text \<open>
  C5, as the code has it: for every well-formed transcript the converter builds as many
  blocks as there are chunks, block \<open>i\<close> (from 0) is the block of chunk \<open>i\<close> and its
  first line is the decimal numeral of \<open>i + 1\<close>, and the output is these blocks joined
  by one empty line. When no chunk has a stripped text that is empty or contains an
  empty line, the blocks of the output, split at its empty lines, are exactly these.
\<close>

theorem convert_block_count:
  assumes "transcript data = Some chunks"
  shows "\<exists>blocks. srt_blocks data = Inr blocks
     \<and> convert_object_to_srt data = Inr (join ''\<newline>'' blocks)
     \<and> length blocks = length chunks
     \<and> (\<forall>i < length chunks.
           blocks ! i = srt_block (Suc i) (chunks ! i)
         \<and> takeWhile (\<lambda>c. c \<noteq> CHR ''\<newline>'') (blocks ! i) = py_str_int (int i + 1))
     \<and> ((\<forall>c \<in> set chunks. plain_text (py_strip (chunk_text c)))
          \<longrightarrow> split_blocks (join ''\<newline>'' blocks) = blocks)"
proof -
  define blocks where
    "blocks = map (\<lambda>(j, c). srt_block j c) (zip [1..<Suc (length chunks)] chunks)"
  have sb: "srt_blocks data = Inr blocks"
    unfolding blocks_def using assms by (rule srt_blocks_well_formed)
  have len: "length blocks = length chunks" by (simp add: blocks_def del: upt_Suc)
  have nth: "blocks ! i = srt_block (Suc i) (chunks ! i)" if "i < length chunks" for i
    using that by (simp add: blocks_def nth_upt del: upt_Suc)
  have line: "takeWhile (\<lambda>c. c \<noteq> CHR ''\<newline>'') (blocks ! i) = py_str_int (int i + 1)"
    if "i < length chunks" for i
    using first_line_srt_block [of "Suc i" "chunks ! i"] nth [OF that] by (simp add: add.commute)
  have conv: "convert_object_to_srt data = Inr (join ''\<newline>'' blocks)"
    by (simp add: convert_object_to_srt_def sb bind_def)
  have split: "split_blocks (join ''\<newline>'' blocks) = blocks"
    if plain: "\<forall>c \<in> set chunks. plain_text (py_strip (chunk_text c))"
  proof -
    have "\<forall>b \<in> set blocks. b \<noteq> [] \<and> last b = CHR ''\<newline>''
             \<and> (\<forall>rest. scan_blocks [] (b @ rest) = scan_blocks (rev b) rest)"
    proof
      fix b assume "b \<in> set blocks"
      then obtain i where i: "i < length blocks" and b: "b = blocks ! i"
        by (auto simp: in_set_conv_nth)
      have ic: "i < length chunks" using i len by simp
      have "plain_text (py_strip (chunk_text (chunks ! i)))" using plain ic by simp
      then have "\<forall>rest. scan_blocks [] (srt_block (Suc i) (chunks ! i) @ rest)
                   = scan_blocks (rev (srt_block (Suc i) (chunks ! i))) rest"
        using scan_srt_block by blast
      then show "b \<noteq> [] \<and> last b = CHR ''\<newline>''
             \<and> (\<forall>rest. scan_blocks [] (b @ rest) = scan_blocks (rev b) rest)"
        using srt_block_ends [of "Suc i" "chunks ! i"] by (simp only: b nth [OF ic]) simp
    qed
    then show ?thesis unfolding split_blocks_def by (rule split_join_blocks)
  qed
  show ?thesis using sb conv len nth line split by blast
qed

lemma plain_input_chunks:
  "\<forall>c \<in> set input_chunks. plain_text (py_strip (chunk_text c))"
  by (simp add: input_chunks_def example_strip plain_text_def)

theorem convert_block_count_witness:
  "transcript input_data = Some input_chunks
   \<and> (\<exists>out. convert_object_to_srt input_data = Inr out
       \<and> length (split_blocks out) = 3
       \<and> takeWhile (\<lambda>c. c \<noteq> CHR ''\<newline>'') (split_blocks out ! 0) = ''1''
       \<and> takeWhile (\<lambda>c. c \<noteq> CHR ''\<newline>'') (split_blocks out ! 1) = ''2''
       \<and> takeWhile (\<lambda>c. c \<noteq> CHR ''\<newline>'') (split_blocks out ! 2) = ''3'')"
proof -
  have n: "length input_chunks = 3" by (simp add: input_chunks_def)
  from convert_block_count [OF transcript_input_data]
  obtain blocks where conv: "convert_object_to_srt input_data = Inr (join ''\<newline>'' blocks)"
    and len: "length blocks = length input_chunks"
    and idx: "\<And>i. i < length input_chunks \<Longrightarrow>
        takeWhile (\<lambda>c. c \<noteq> CHR ''\<newline>'') (blocks ! i) = py_str_int (int i + 1)"
    and split: "(\<forall>c \<in> set input_chunks. plain_text (py_strip (chunk_text c)))
        \<longrightarrow> split_blocks (join ''\<newline>'' blocks) = blocks"
    by blast
  have sp: "split_blocks (join ''\<newline>'' blocks) = blocks"
    using split plain_input_chunks by blast
  have "takeWhile (\<lambda>c. c \<noteq> CHR ''\<newline>'') (blocks ! 0) = ''1''"
    using idx [of 0] by (simp add: n py_str_int_def str_nat.simps digit_char_def)
  moreover have "takeWhile (\<lambda>c. c \<noteq> CHR ''\<newline>'') (blocks ! 1) = ''2''"
    using idx [of 1] by (simp add: n py_str_int_def str_nat.simps digit_char_def)
  moreover have "takeWhile (\<lambda>c. c \<noteq> CHR ''\<newline>'') (blocks ! 2) = ''3''"
    using idx [of 2] by (simp add: n py_str_int_def str_nat.simps digit_char_def)
  ultimately show ?thesis using transcript_input_data conv len n sp by auto
qed

text \<open>
  C5 as stated counts the blocks of the output. A text may contain an empty line: the
  input with the one chunk \<open>[0, 1]\<close>, "a", empty line, "2", a time range, "b" is
  well-formed, and its output has two blocks; it is the output of the input with the two
  chunks \<open>[0, 1]\<close>, "a" and \<open>[1, 2]\<close>, "b".
\<close>

theorem text_with_blank_line_adds_block:
  "transcript (PyDict [(''chunks'', PyList [PyDict [(''timestamp'', PyList [PyInt 0, PyInt 1]),
       (''text'', PyStr ''a\<newline>\<newline>2\<newline>00:00:01,000 --> 00:00:02,000\<newline>b'')]])])
   = Some [\<lparr>chunk_timestamp = (PyInt 0, PyInt 1),
            chunk_text = ''a\<newline>\<newline>2\<newline>00:00:01,000 --> 00:00:02,000\<newline>b''\<rparr>]
   \<and> convert_object_to_srt (PyDict [(''chunks'', PyList [PyDict [
       (''timestamp'', PyList [PyInt 0, PyInt 1]),
       (''text'', PyStr ''a\<newline>\<newline>2\<newline>00:00:01,000 --> 00:00:02,000\<newline>b'')]])])
     = Inr ''1\<newline>00:00:00,000 --> 00:00:01,000\<newline>a\<newline>\<newline>2\<newline>00:00:01,000 --> 00:00:02,000\<newline>b\<newline>''
   \<and> split_blocks ''1\<newline>00:00:00,000 --> 00:00:01,000\<newline>a\<newline>\<newline>2\<newline>00:00:01,000 --> 00:00:02,000\<newline>b\<newline>''
     = [''1\<newline>00:00:00,000 --> 00:00:01,000\<newline>a\<newline>'',
        ''2\<newline>00:00:01,000 --> 00:00:02,000\<newline>b\<newline>'']
   \<and> transcript (PyDict [(''chunks'', PyList [
       PyDict [(''timestamp'', PyList [PyInt 0, PyInt 1]), (''text'', PyStr ''a'')],
       PyDict [(''timestamp'', PyList [PyInt 1, PyInt 2]), (''text'', PyStr ''b'')]])])
     = Some [\<lparr>chunk_timestamp = (PyInt 0, PyInt 1), chunk_text = ''a''\<rparr>,
             \<lparr>chunk_timestamp = (PyInt 1, PyInt 2), chunk_text = ''b''\<rparr>]
   \<and> convert_object_to_srt (PyDict [(''chunks'', PyList [
       PyDict [(''timestamp'', PyList [PyInt 0, PyInt 1]), (''text'', PyStr ''a'')],
       PyDict [(''timestamp'', PyList [PyInt 1, PyInt 2]), (''text'', PyStr ''b'')]])])
     = Inr ''1\<newline>00:00:00,000 --> 00:00:01,000\<newline>a\<newline>\<newline>2\<newline>00:00:01,000 --> 00:00:02,000\<newline>b\<newline>''"
proof -
  have f1: "format_time (PyInt 1) = Inr ''00:00:01,000''" by (simp add: eval_defs)
  have f2: "format_time (PyInt 2) = Inr ''00:00:02,000''" by (simp add: eval_defs)
  have r: "in_timedelta_range (PyInt 0)" "in_timedelta_range (PyInt 1)"
    "in_timedelta_range (PyInt 2)"
    by (simp_all add: in_timedelta_range_def)
  have s: "py_strip ''a\<newline>\<newline>2\<newline>00:00:01,000 --> 00:00:02,000\<newline>b''
      = ''a\<newline>\<newline>2\<newline>00:00:01,000 --> 00:00:02,000\<newline>b''"
    "py_strip ''a'' = ''a''" "py_strip ''b'' = ''b''"
    by (simp_all add: py_strip_def is_space_def)
  have t1: "transcript (PyDict [(''chunks'', PyList [PyDict [(''timestamp'', PyList [PyInt 0, PyInt 1]),
       (''text'', PyStr ''a\<newline>\<newline>2\<newline>00:00:01,000 --> 00:00:02,000\<newline>b'')]])])
   = Some [\<lparr>chunk_timestamp = (PyInt 0, PyInt 1),
            chunk_text = ''a\<newline>\<newline>2\<newline>00:00:01,000 --> 00:00:02,000\<newline>b''\<rparr>]"
    by (simp add: transcript_def as_chunk_def r)
  have t2: "transcript (PyDict [(''chunks'', PyList [
       PyDict [(''timestamp'', PyList [PyInt 0, PyInt 1]), (''text'', PyStr ''a'')],
       PyDict [(''timestamp'', PyList [PyInt 1, PyInt 2]), (''text'', PyStr ''b'')]])])
     = Some [\<lparr>chunk_timestamp = (PyInt 0, PyInt 1), chunk_text = ''a''\<rparr>,
             \<lparr>chunk_timestamp = (PyInt 1, PyInt 2), chunk_text = ''b''\<rparr>]"
    by (simp add: transcript_def as_chunk_def r)
  have c1: "convert_object_to_srt (PyDict [(''chunks'', PyList [PyDict [
       (''timestamp'', PyList [PyInt 0, PyInt 1]),
       (''text'', PyStr ''a\<newline>\<newline>2\<newline>00:00:01,000 --> 00:00:02,000\<newline>b'')]])])
     = Inr ''1\<newline>00:00:00,000 --> 00:00:01,000\<newline>a\<newline>\<newline>2\<newline>00:00:01,000 --> 00:00:02,000\<newline>b\<newline>''"
    by (simp add: convert_object_to_srt_def srt_blocks_def render_chunk_def bind_def
        format_time_0 f1 s py_str_int_def str_nat.simps digit_char_def)
  have c2: "convert_object_to_srt (PyDict [(''chunks'', PyList [
       PyDict [(''timestamp'', PyList [PyInt 0, PyInt 1]), (''text'', PyStr ''a'')],
       PyDict [(''timestamp'', PyList [PyInt 1, PyInt 2]), (''text'', PyStr ''b'')]])])
     = Inr ''1\<newline>00:00:00,000 --> 00:00:01,000\<newline>a\<newline>\<newline>2\<newline>00:00:01,000 --> 00:00:02,000\<newline>b\<newline>''"
    by (simp add: convert_object_to_srt_def srt_blocks_def render_chunk_def bind_def
        format_time_0 f1 f2 s py_str_int_def str_nat.simps digit_char_def)
  have sp: "split_blocks ''1\<newline>00:00:00,000 --> 00:00:01,000\<newline>a\<newline>\<newline>2\<newline>00:00:01,000 --> 00:00:02,000\<newline>b\<newline>''
     = [''1\<newline>00:00:00,000 --> 00:00:01,000\<newline>a\<newline>'',
        ''2\<newline>00:00:01,000 --> 00:00:02,000\<newline>b\<newline>'']"
    by (simp add: split_blocks_def)
  show ?thesis using t1 t2 c1 c2 sp by (intro conjI)
qed


text \<open>
  C7: the input with no speakers and the chunks \<open>[0, 5.5]\<close>, "Hello, this is the first
  subtitle." and \<open>[6, 10.2]\<close>, "And this is the second one." gives the two blocks of
  the specification, one empty line between them.
\<close>

theorem convert_end_to_end:
  "convert_object_to_srt (PyDict [(''speakers'', PyList []), (''chunks'', PyList [
     PyDict [(''timestamp'', PyList [PyInt 0, PyFloat (Finite 11 (- 1))]),
             (''text'', PyStr ''Hello, this is the first subtitle.'')],
     PyDict [(''timestamp'', PyList [PyInt 6, PyFloat (Finite 5742089524897382 (- 49))]),
             (''text'', PyStr ''And this is the second one.'')]])])
   = Inr ''1\<newline>00:00:00,000 --> 00:00:05,500\<newline>Hello, this is the first subtitle.\<newline>\<newline>2\<newline>00:00:06,000 --> 00:00:10,200\<newline>And this is the second one.\<newline>''"
  by (simp add: format_time_0 format_time_6 format_time_5_5 format_time_10_2 example_strip
      convert_object_to_srt_def srt_blocks_def bind_def render_chunk_def py_str_int_def
      str_nat.simps digit_char_def)

text \<open>
  C9: the output depends on the input object through its \<open>chunks\<close> entry only: two
  objects with the same entry, whatever their \<open>speakers\<close> or other keys, convert to the
  same result.
\<close>

theorem convert_ignores_speakers:
  assumes "map_of kvs1 ''chunks'' = map_of kvs2 ''chunks''"
  shows "convert_object_to_srt (PyDict kvs1) = convert_object_to_srt (PyDict kvs2)"
  using assms by (simp add: convert_object_to_srt_def srt_blocks_def)

theorem convert_ignores_speakers_witness:
  "map_of [(''speakers'', PyList [PyStr ''SPEAKER_00'']),
           (''chunks'', PyList [PyDict [(''timestamp'', PyList [PyInt 0, PyInt 6]),
                                        (''text'', PyStr ''second'')]])] ''chunks''
   = map_of [(''chunks'', PyList [PyDict [(''timestamp'', PyList [PyInt 0, PyInt 6]),
                                          (''text'', PyStr ''second'')]])] ''chunks''
   \<and> convert_object_to_srt (PyDict [(''speakers'', PyList [PyStr ''SPEAKER_00'']),
           (''chunks'', PyList [PyDict [(''timestamp'', PyList [PyInt 0, PyInt 6]),
                                        (''text'', PyStr ''second'')]])])
     = convert_object_to_srt (PyDict
          [(''chunks'', PyList [PyDict [(''timestamp'', PyList [PyInt 0, PyInt 6]),
                                        (''text'', PyStr ''second'')]])])"
proof -
  have h: "map_of [(''speakers'', PyList [PyStr ''SPEAKER_00'']),
           (''chunks'', PyList [PyDict [(''timestamp'', PyList [PyInt 0, PyInt 6]),
                                        (''text'', PyStr ''second'')]])] ''chunks''
   = map_of [(''chunks'', PyList [PyDict [(''timestamp'', PyList [PyInt 0, PyInt 6]),
                                          (''text'', PyStr ''second'')]])] ''chunks''"
    by simp
  show ?thesis using h convert_ignores_speakers [OF h] by (rule conjI)
qed


section \<open>Errors and the writer\<close>

lemma bind_InlE:
  assumes "bind r f = Inl e"
  obtains "r = Inl e" | v where "r = Inr v" and "f v = Inl e"
  using assms by (cases r) (simp_all add: bind_def)

lemma bind_InrE:
  assumes "bind r f = Inr b"
  obtains v where "r = Inr v" and "f v = Inr b"
  using assms by (cases r) (simp_all add: bind_def)

lemma total_microseconds_raises:
  "total_microseconds x = Inl e \<Longrightarrow> raised_by_converter e"
  by (cases x rule: total_microseconds.cases) auto

lemma format_time_raises:
  assumes "format_time x = Inl e"
  shows "raised_by_converter e"
proof (cases "total_microseconds x")
  case (Inl e')
  then show ?thesis
    using assms total_microseconds_raises [of x e']
    by (simp add: format_time_def timedelta_seconds_def)
next
  case (Inr us)
  show ?thesis
  proof (cases "\<bar>us div 1000000 div 86400\<bar> \<le> 999999999")
    case True
    then show ?thesis using assms format_time_clock [OF Inr] by simp
  next
    case False
    then show ?thesis
      using assms by (simp add: format_time_def timedelta_seconds_def Inr normalize_def Let_def)
  qed
qed

lemma format_time_not_number: "\<not> is_number v \<Longrightarrow> format_time v = Inl TypeError"
  by (cases v) (simp_all add: format_time_def timedelta_seconds_def)

lemma getitem_key_raises: "getitem_key v k = Inl e \<Longrightarrow> raised_by_converter e"
  by (cases v) (auto split: option.splits)

lemma getitem_index_raises: "getitem_index v i = Inl e \<Longrightarrow> raised_by_converter e"
  by (cases v) (auto split: if_splits)

lemma strip_method_raises: "strip_method v = Inl e \<Longrightarrow> raised_by_converter e"
  by (cases v) auto

lemma py_iter_raises: "py_iter v = Inl e \<Longrightarrow> raised_by_converter e"
  by (cases v) auto

lemma render_chunk_raises:
  assumes "render_chunk i c = Inl e"
  shows "raised_by_converter e"
  using assms unfolding render_chunk_def
  by (elim bind_InlE)
     (auto dest: getitem_key_raises getitem_index_raises format_time_raises strip_method_raises)

lemma chunk_loop_raises:
  "chunk_loop cs acc i = Inl e \<Longrightarrow> raised_by_converter e"
proof (induction cs arbitrary: acc i)
  case Nil
  then show ?case by simp
next
  case (Cons c cs)
  from Cons.prems show ?case
    unfolding chunk_loop.simps
    by (elim bind_InlE) (auto dest: render_chunk_raises Cons.IH)
qed

lemma convert_raises:
  assumes "convert_object_to_srt data = Inl e"
  shows "raised_by_converter e"
  using assms unfolding convert_object_to_srt_def srt_blocks_def
  by (elim bind_InlE) (auto dest: getitem_key_raises py_iter_raises chunk_loop_raises)

lemma raised_is_Exception: "raised_by_converter e \<Longrightarrow> is_Exception e"
  by (cases e) simp_all

lemma getitem_key_InrD:
  "getitem_key c k = Inr v \<Longrightarrow> \<exists>kvs. c = PyDict kvs \<and> map_of kvs k = Some v"
  by (cases c) (auto split: option.splits)

lemma number_at_index:
  assumes "getitem_index ts i = Inr t" and "format_time t = Inr s"
  shows "\<exists>xs. ts = PyList xs \<and> i < length xs \<and> is_number (xs ! i)"
proof -
  have num: "is_number t" using assms(2) format_time_not_number [of t] by auto
  show ?thesis
    using assms(1) num by (cases ts) (auto split: if_splits)
qed

lemma render_chunk_sound:
  assumes "render_chunk i c = Inr b"
  shows "\<not> defective_chunk c"
proof -
  from assms obtain ts0 t0 s0 ts1 t1 s1 tx where
    k0: "getitem_key c ''timestamp'' = Inr ts0" and i0: "getitem_index ts0 0 = Inr t0"
    and f0: "format_time t0 = Inr s0"
    and k1: "getitem_key c ''timestamp'' = Inr ts1" and i1: "getitem_index ts1 1 = Inr t1"
    and f1: "format_time t1 = Inr s1"
    and kt: "getitem_key c ''text'' = Inr tx"
    unfolding render_chunk_def by (elim bind_InrE) blast
  obtain kvs where c: "c = PyDict kvs" and ts: "map_of kvs ''timestamp'' = Some ts0"
    using getitem_key_InrD [OF k0] by blast
  have tx: "map_of kvs ''text'' = Some tx" using kt c by (auto split: option.splits)
  have same: "ts1 = ts0" using k0 k1 by simp
  obtain xs where xs: "ts0 = PyList xs" and n0: "is_number (xs ! 0)"
    using number_at_index [OF i0 f0] by blast
  obtain ys where "ts1 = PyList ys" "1 < length ys" "is_number (ys ! 1)"
    using number_at_index [OF i1 f1] by blast
  then have l: "1 < length xs" and n1: "is_number (xs ! 1)" using same xs by simp_all
  then obtain a b rest where abr: "xs = a # b # rest"
    by (cases xs; cases "tl xs") auto
  have "\<not> lacks_two_numbers ts0"
    using n0 n1 by (simp add: lacks_two_numbers_def xs abr)
  then show ?thesis by (simp add: defective_chunk_def c ts tx)
qed

lemma chunk_loop_sound:
  "chunk_loop cs acc i = Inr out \<Longrightarrow> \<not> list_ex defective_chunk cs"
proof (induction cs arbitrary: acc i)
  case Nil
  then show ?case by simp
next
  case (Cons c cs)
  from Cons.prems obtain b where b: "render_chunk i c = Inr b"
    and rest: "chunk_loop cs (acc @ [b]) (i + 1) = Inr out"
    unfolding chunk_loop.simps by (elim bind_InrE) blast
  show ?case using render_chunk_sound [OF b] Cons.IH [OF rest] by simp
qed

lemma convert_sound:
  assumes "convert_object_to_srt data = Inr out"
  shows "\<not> defective_input data"
proof -
  from assms obtain chunks cs blocks where k: "getitem_key data ''chunks'' = Inr chunks"
    and it: "py_iter chunks = Inr cs" and loop: "chunk_loop cs [] 1 = Inr blocks"
    unfolding convert_object_to_srt_def srt_blocks_def by (elim bind_InrE) blast
  obtain kvs where d: "data = PyDict kvs" and c: "map_of kvs ''chunks'' = Some chunks"
    using getitem_key_InrD [OF k] by blast
  show ?thesis
    using chunk_loop_sound [OF loop] by (simp add: defective_input_def d c it)
qed

lemma process_object_conversion_fails:
  assumes "convert_object_to_srt data = Inl e"
  shows "process_object io data output_path w = Inr (print (ErrorProcessingData e) w)"
  using assms raised_is_Exception [OF convert_raises [OF assms]]
  by (simp add: process_object_def try_body_def)

text \<open>
  C2, as the code has it: if the input dict has no \<open>chunks\<close> entry, or some chunk is
  not a dict, has no \<open>timestamp\<close> or no \<open>text\<close> entry, or has a timestamp whose elements
  0 and 1 are not both numbers (not a list, fewer than two elements, or a non-number
  among the first two), then the converter raises an exception and returns no string,
  and the writer, whatever the file system would do, leaves the files as they are and
  prints the error.
\<close>

theorem defective_input_aborts:
  assumes "defective_input data"
  shows "\<exists>e. convert_object_to_srt data = Inl e \<and> raised_by_converter e
     \<and> process_object io data output_path w = Inr (print (ErrorProcessingData e) w)
     \<and> files (print (ErrorProcessingData e) w) = files w"
proof (cases "convert_object_to_srt data")
  case (Inl e)
  then show ?thesis
    using convert_raises [OF Inl] process_object_conversion_fails [OF Inl]
    by (simp add: print_def)
next
  case (Inr out)
  then show ?thesis using convert_sound assms by blast
qed

theorem defective_input_aborts_witness:
  "defective_input (PyDict [(''chunks'', PyList [PyDict [(''text'', PyStr ''no timestamp'')]])])
   \<and> convert_object_to_srt
        (PyDict [(''chunks'', PyList [PyDict [(''text'', PyStr ''no timestamp'')]])])
     = Inl KeyError
   \<and> process_object IoSucceeds
        (PyDict [(''chunks'', PyList [PyDict [(''text'', PyStr ''no timestamp'')]])])
        ''output.srt'' empty_world
     = Inr (print (ErrorProcessingData KeyError) empty_world)"
proof -
  let ?d = "PyDict [(''chunks'', PyList [PyDict [(''text'', PyStr ''no timestamp'')]])]"
  have h: "defective_input ?d"
    by (simp add: defective_input_def defective_chunk_def)
  have c: "convert_object_to_srt ?d = Inl KeyError"
    by (simp add: convert_object_to_srt_def srt_blocks_def render_chunk_def bind_def)
  show ?thesis
    using h c defective_input_aborts [OF h, of IoSucceeds "''output.srt''" empty_world]
    by simp
qed

text \<open>
  C2 as stated counts every timestamp that is not a pair of numbers as an error. A
  list of three numbers is not a pair, and the code, which reads the elements 0 and 1
  only, converts the chunk and writes the file.
\<close>

theorem three_element_timestamp_accepted:
  "\<not> is_pair_of_numbers (PyList [PyInt 0, PyInt 1, PyInt 2])
   \<and> convert_object_to_srt
        (PyDict [(''chunks'', PyList [PyDict [
            (''timestamp'', PyList [PyInt 0, PyInt 1, PyInt 2]), (''text'', PyStr ''x'')]])])
     = Inr ''1\<newline>00:00:00,000 --> 00:00:01,000\<newline>x\<newline>''
   \<and> written ''output.srt''
        (process_object IoSucceeds
          (PyDict [(''chunks'', PyList [PyDict [
            (''timestamp'', PyList [PyInt 0, PyInt 1, PyInt 2]), (''text'', PyStr ''x'')]])])
          ''output.srt'' empty_world)
     = Some ''1\<newline>00:00:00,000 --> 00:00:01,000\<newline>x\<newline>''"
proof -
  have f1: "format_time (PyInt 1) = Inr ''00:00:01,000''" by (simp add: eval_defs)
  have c: "convert_object_to_srt
        (PyDict [(''chunks'', PyList [PyDict [
            (''timestamp'', PyList [PyInt 0, PyInt 1, PyInt 2]), (''text'', PyStr ''x'')]])])
     = Inr ''1\<newline>00:00:00,000 --> 00:00:01,000\<newline>x\<newline>''"
    by (simp add: convert_object_to_srt_def srt_blocks_def render_chunk_def bind_def
        format_time_0 f1 py_strip_def is_space_def py_str_int_def str_nat.simps digit_char_def)
  show ?thesis
    by (simp add: is_pair_of_numbers_def c process_object_def try_body_def open_and_write_def
        written_def print_def empty_world_def)
qed




end
